theory Spec2Isabelle
  imports Main "HOL-Library.Multiset"
begin

section \<open>Data model (prisma/schema.prisma)\<close>

text \<open>
  Identifiers (MongoDB ObjectIds as the client writes them in a route parameter) and
  e-mail addresses are strings. A timestamp is the number of milliseconds since the epoch.
  The opaque \<open>facilities\<close> blob and a visit's \<open>date\<close> are kept as the strings the
  client sent: no handler looks inside them.

  The handlers are modelled on requests that are well formed for the schema: the body
  carries the fields the handler reads, and an identifier has the syntax the store accepts.
  The store is taken to be reachable: the only failures of a query are the ones the schema
  can cause (a unique index, a missing related record).
\<close>

type_synonym objectId = string
type_synonym emailAddr = string

text \<open>
  An element of \<open>User.bookedVisits\<close>: the object \<open>{ id, date }\<close> that \<open>bookVisit\<close>
  pushes. \<open>id\<close> is the listing's identifier.
\<close>

record visit =
  visit_id :: objectId
  visit_date :: string

text \<open>
  The fields of \<open>model User\<close> that a client can write (\<open>createUser\<close> hands the
  whole request body to \<open>prisma.user.create\<close>), then the stored document, which adds
  the generated \<open>id\<close>.
\<close>

record user_data =
  name :: "string option"
  email :: emailAddr
  user_image :: "string option"
  bookedVisits :: "visit list"
  favResidenciesID :: "objectId list"

record user = user_data +
  user_id :: objectId

text \<open>
  The fields \<open>createResidency\<close> destructures from \<open>req.body.data\<close>, then the stored
  document of \<open>model Residency\<close>, which adds the generated \<open>id\<close> and both timestamps.
\<close>

record residency_data =
  title :: string
  description :: string
  price :: int
  address :: string
  country :: string
  city :: string
  facilities :: string
  res_image :: string
  userEmail :: emailAddr

record residency = residency_data +
  res_id :: objectId
  createdAt :: int
  updatedAt :: int

text \<open>The database: the two collections, each in insertion order.\<close>

record db =
  users :: "user list"
  residencies :: "residency list"

text \<open>
  What the store decides at a write: the identifier it generates for the new document
  (\<open>@default(auto())\<close>) and the time of the write (\<open>@default(now())\<close>, \<open>@updatedAt\<close>).
\<close>

record env =
  genId :: objectId
  now :: int

section \<open>Responses and failures\<close>

text \<open>
  The Prisma error codes the handlers can meet: \<open>P2002\<close> (unique constraint failed) and
  \<open>P2025\<close> (a record the operation depends on was not found).
\<close>

datatype prisma_error = P2002 | P2025

text \<open>
  The message of a thrown \<open>Error\<close>: of the \<open>TypeError\<close> that reading a property of
  \<open>null\<close> raises (with the property's name), of \<open>createResidency\<close>'s own error, or a
  Prisma error's message passed through (\<open>throw new Error(err.message)\<close>).
\<close>

datatype errmsg =
    NullRead string
  | AddressExists
  | PrismaMsg prisma_error

datatype body =
    Text string
  | Message string
  | MessageUser string user
  | MessageResidency string residency
  | BookedVisits "visit list"
  | FavResidenciesID "objectId list"
  | Residencies "residency list"
  | OneResidency residency
  | Null

text \<open>
  A handler either sends a response (status code and body) or throws; \<open>asyncHandler\<close>
  passes what is thrown to the framework's error handler.
\<close>

datatype outcome = Sent nat body | Thrown errmsg

text \<open>
  The status code the client sees. An error that reaches Express's error handler
  carrying no status of its own is answered with 500.
\<close>

fun statusOf :: "outcome \<Rightarrow> nat" where
  "statusOf (Sent st b) = st"
| "statusOf (Thrown m) = 500"

section \<open>The persistence client\<close>

text \<open>Replace the first element that satisfies \<open>p\<close>: an update of one document.\<close>

fun updateWhere :: "('a \<Rightarrow> bool) \<Rightarrow> ('a \<Rightarrow> 'a) \<Rightarrow> 'a list \<Rightarrow> 'a list" where
  "updateWhere p f [] = []"
| "updateWhere p f (x # xs) = (if p x then f x # xs else x # updateWhere p f xs)"

text \<open>\<open>prisma.user.findUnique({ where: { email } })\<close>: the document or \<open>null\<close>.\<close>

definition user_findUnique :: "db \<Rightarrow> emailAddr \<Rightarrow> user option" where
  "user_findUnique s e = find (\<lambda>u. email u = e) (users s)"

text \<open>
  \<open>prisma.user.create({ data })\<close>: \<open>email\<close> is \<open>@unique\<close>, so a second document
  with a stored e-mail is refused with \<open>P2002\<close>; otherwise the document is added under
  the generated identifier.
\<close>

definition newUser :: "user_data \<Rightarrow> objectId \<Rightarrow> user" where
  "newUser d i = \<lparr>name = name d, email = email d, user_image = user_image d,
                   bookedVisits = bookedVisits d, favResidenciesID = favResidenciesID d,
                   user_id = i\<rparr>"

definition user_create :: "db \<Rightarrow> env \<Rightarrow> user_data \<Rightarrow> prisma_error + (user \<times> db)" where
  "user_create s ev d =
     (if list_ex (\<lambda>u. email u = email d) (users s) then Inl P2002
      else (let u = newUser d (genId ev)
            in Inr (u, s\<lparr>users := users s @ [u]\<rparr>)))"

text \<open>
  \<open>prisma.user.update({ where: { email }, data })\<close>: \<open>P2025\<close> when no document has
  the e-mail; otherwise the document is changed by \<open>f\<close> and returned.
\<close>

definition user_update :: "db \<Rightarrow> emailAddr \<Rightarrow> (user \<Rightarrow> user) \<Rightarrow> prisma_error + (user \<times> db)" where
  "user_update s e f =
     (case user_findUnique s e of
        None \<Rightarrow> Inl P2025
      | Some u \<Rightarrow> Inr (f u, s\<lparr>users := updateWhere (\<lambda>u. email u = e) f (users s)\<rparr>))"

section \<open>User handlers (controllers/userCntrl.js)\<close>

definition createUser :: "db \<Rightarrow> env \<Rightarrow> user_data \<Rightarrow> outcome \<times> db" where
  "createUser s ev reqBody =
     (case user_findUnique s (email reqBody) of
        None \<Rightarrow>
          (case user_create s ev reqBody of
             Inl err \<Rightarrow> (Thrown (PrismaMsg err), s)
           | Inr (u, s') \<Rightarrow> (Sent 200 (MessageUser ''User registered successfully'' u), s'))
      | Some userExists \<Rightarrow> (Sent 201 (Message ''User already registered''), s))"

definition bookVisit :: "db \<Rightarrow> emailAddr \<Rightarrow> objectId \<Rightarrow> string \<Rightarrow> outcome \<times> db" where
  "bookVisit s e i date =
     (case user_findUnique s e of
        None \<Rightarrow> (Thrown (NullRead ''bookedVisits''), s)
      | Some alreadyBooked \<Rightarrow>
          if list_ex (\<lambda>v. visit_id v = i) (bookedVisits alreadyBooked)
          then (Sent 400 (Message ''This residency is already booked by you''), s)
          else (case user_update s e
                       (\<lambda>u. u\<lparr>bookedVisits :=
                                 bookedVisits u @ [\<lparr>visit_id = i, visit_date = date\<rparr>]\<rparr>) of
                  Inl err \<Rightarrow> (Thrown (PrismaMsg err), s)
                | Inr (u', s') \<Rightarrow> (Sent 200 (Text ''Your visit is booked successfully''), s')))"

text \<open>
  \<open>findUnique\<close> with \<open>select: { bookedVisits: true }\<close> answers \<open>null\<close> or an object
  holding that field alone; \<open>res.status(200).send\<close> of \<open>null\<close> is an empty body.
\<close>

definition getAllBookings :: "db \<Rightarrow> emailAddr \<Rightarrow> outcome \<times> db" where
  "getAllBookings s e =
     (case user_findUnique s e of
        None \<Rightarrow> (Sent 200 Null, s)
      | Some bookings \<Rightarrow> (Sent 200 (BookedVisits (bookedVisits bookings)), s))"

text \<open>\<open>Array.prototype.findIndex\<close>: the first index whose element satisfies \<open>p\<close>, or \<open>-1\<close>.\<close>

fun findIndex :: "('a \<Rightarrow> bool) \<Rightarrow> 'a list \<Rightarrow> int" where
  "findIndex p [] = - 1"
| "findIndex p (x # xs) =
     (if p x then 0 else (let k = findIndex p xs in if k = - 1 then - 1 else k + 1))"

text \<open>\<open>xs.splice(index, 1)\<close> for an index within the array: the element there is removed.\<close>

definition splice1 :: "'a list \<Rightarrow> int \<Rightarrow> 'a list" where
  "splice1 xs index = take (nat index) xs @ drop (nat index + 1) xs"

definition cancelBooking :: "db \<Rightarrow> emailAddr \<Rightarrow> objectId \<Rightarrow> outcome \<times> db" where
  "cancelBooking s e i =
     (case user_findUnique s e of
        None \<Rightarrow> (Thrown (NullRead ''bookedVisits''), s)
      | Some usr \<Rightarrow>
          (let index = findIndex (\<lambda>v. visit_id v = i) (bookedVisits usr)
           in if index = - 1 then (Sent 404 (Message ''Booking not found''), s)
              else (case user_update s e
                           (\<lambda>u. u\<lparr>bookedVisits := splice1 (bookedVisits usr) index\<rparr>) of
                      Inl err \<Rightarrow> (Thrown (PrismaMsg err), s)
                    | Inr (u', s') \<Rightarrow> (Sent 200 (Text ''Booking cancelled successfully''), s'))))"

definition toFav :: "db \<Rightarrow> emailAddr \<Rightarrow> objectId \<Rightarrow> outcome \<times> db" where
  "toFav s e rid =
     (case user_findUnique s e of
        None \<Rightarrow> (Thrown (NullRead ''favResidenciesID''), s)
      | Some usr \<Rightarrow>
          if List.member (favResidenciesID usr) rid
          then (case user_update s e
                       (\<lambda>u. u\<lparr>favResidenciesID :=
                                 filter (\<lambda>i. i \<noteq> rid) (favResidenciesID usr)\<rparr>) of
                  Inl err \<Rightarrow> (Thrown (PrismaMsg err), s)
                | Inr (updateUser, s') \<Rightarrow>
                    (Sent 200 (MessageUser ''Removed from favorites'' updateUser), s'))
          else (case user_update s e
                       (\<lambda>u. u\<lparr>favResidenciesID := favResidenciesID u @ [rid]\<rparr>) of
                  Inl err \<Rightarrow> (Thrown (PrismaMsg err), s)
                | Inr (updateUser, s') \<Rightarrow>
                    (Sent 200 (MessageUser ''Updated favorites'' updateUser), s')))"

definition getAllFavorites :: "db \<Rightarrow> emailAddr \<Rightarrow> outcome \<times> db" where
  "getAllFavorites s e =
     (case user_findUnique s e of
        None \<Rightarrow> (Sent 200 Null, s)
      | Some favResd \<Rightarrow> (Sent 200 (FavResidenciesID (favResidenciesID favResd)), s))"

section \<open>Residency handlers (controllers/resdCntrl.js)\<close>

text \<open>
  \<open>prisma.residency.create\<close> with \<open>owner: { connect: { email } }\<close>: the owner is
  looked up first (\<open>P2025\<close> when there is none); then the document is written, which
  the composite unique index on \<open>(address, userEmail)\<close> refuses with \<open>P2002\<close> when
  a stored listing has the same pair. Both timestamps start at the time of the write.
\<close>

definition newResidency :: "residency_data \<Rightarrow> objectId \<Rightarrow> int \<Rightarrow> residency" where
  "newResidency d i t = \<lparr>title = title d, description = description d, price = price d,
                         address = address d, country = country d, city = city d,
                         facilities = facilities d, res_image = res_image d,
                         userEmail = userEmail d, res_id = i, createdAt = t, updatedAt = t\<rparr>"

definition residency_create :: "db \<Rightarrow> env \<Rightarrow> residency_data \<Rightarrow> prisma_error + (residency \<times> db)" where
  "residency_create s ev d =
     (case user_findUnique s (userEmail d) of
        None \<Rightarrow> Inl P2025
      | Some owner \<Rightarrow>
          if list_ex (\<lambda>r. address r = address d \<and> userEmail r = userEmail d) (residencies s)
          then Inl P2002
          else (let r = newResidency d (genId ev) (now ev)
                in Inr (r, s\<lparr>residencies := residencies s @ [r]\<rparr>)))"

text \<open>
  \<open>findMany({ orderBy: { createdAt: "desc" } })\<close>: every document, latest first. The
  store promises no order between documents created at the same time; here they stay in
  the order of insertion, and no theorem below depends on it.
\<close>

definition residency_findMany_desc :: "db \<Rightarrow> residency list" where
  "residency_findMany_desc s = sort_key (\<lambda>r. - createdAt r) (residencies s)"

text \<open>\<open>prisma.residency.findUnique({ where: { id } })\<close>: the document or \<open>null\<close>.\<close>

definition residency_findUnique :: "db \<Rightarrow> objectId \<Rightarrow> residency option" where
  "residency_findUnique s i = find (\<lambda>r. res_id r = i) (residencies s)"

definition createResidency :: "db \<Rightarrow> env \<Rightarrow> residency_data \<Rightarrow> outcome \<times> db" where
  "createResidency s ev d =
     (case residency_create s ev d of
        Inr (r, s') \<Rightarrow> (Sent 200 (MessageResidency ''Residency created successfully'' r), s')
      | Inl err \<Rightarrow>
          if err = P2002 then (Thrown AddressExists, s)
          else (Thrown (PrismaMsg err), s))"

text \<open>
  The \<open>catch\<close> of \<open>getAllResidencies\<close> answers 500 when the query fails; with the
  store reachable it does not.
\<close>

definition getAllResidencies :: "db \<Rightarrow> outcome \<times> db" where
  "getAllResidencies s = (Sent 200 (Residencies (residency_findMany_desc s)), s)"

text \<open>\<open>res.send(null)\<close> answers 200 with an empty body.\<close>

definition getResidency :: "db \<Rightarrow> objectId \<Rightarrow> outcome \<times> db" where
  "getResidency s i =
     (case residency_findUnique s i of
        None \<Rightarrow> (Sent 200 Null, s)
      | Some r \<Rightarrow> (Sent 200 (OneResidency r), s))"

section \<open>Routes (routes/residencyRoute.js, routes/userRoute.js)\<close>

datatype request =
    PostCreate residency_data
  | GetAllresd
  | GetResidencyById objectId
  | PostRegister user_data
  | PostBookVisit objectId emailAddr string
  | PostAllBookings emailAddr
  | PostRemoveBooking objectId emailAddr
  | PostToFav objectId emailAddr
  | PostAllFav emailAddr

fun route :: "db \<Rightarrow> env \<Rightarrow> request \<Rightarrow> outcome \<times> db" where
  "route s ev (PostCreate d) = createResidency s ev d"
| "route s ev GetAllresd = getAllResidencies s"
| "route s ev (GetResidencyById i) = getResidency s i"
| "route s ev (PostRegister d) = createUser s ev d"
| "route s ev (PostBookVisit i e date) = bookVisit s e i date"
| "route s ev (PostAllBookings e) = getAllBookings s e"
| "route s ev (PostRemoveBooking i e) = cancelBooking s e i"
| "route s ev (PostToFav rid e) = toFav s e rid"
| "route s ev (PostAllFav e) = getAllFavorites s e"

section \<open>The invariant of a booking list\<close>

text \<open>
  The user stored under \<open>e\<close> has a booking list whose listing identifiers are pairwise
  distinct. Nothing in the schema enforces it (\<open>bookedVisits\<close> is a plain array): it is
  \<open>bookVisit\<close>'s scan that keeps it.
\<close>

definition bookingsDistinct :: "db \<Rightarrow> emailAddr \<Rightarrow> bool" where
  "bookingsDistinct s e =
     (case user_findUnique s e of
        None \<Rightarrow> False
      | Some u \<Rightarrow> distinct (map visit_id (bookedVisits u)))"

section \<open>The invariants of the listings\<close>

text \<open>
  The owner of every stored listing is a registered user: \<open>createResidency\<close> connects
  the listing to an existing user, and no route removes a user.
\<close>

definition ownersRegistered :: "db \<Rightarrow> bool" where
  "ownersRegistered s =
     list_all (\<lambda>r. list_ex (\<lambda>u. email u = userEmail r) (users s)) (residencies s)"

text \<open>The pair under the composite unique index of \<open>model Residency\<close>.\<close>

definition addressOwner :: "residency \<Rightarrow> string \<times> emailAddr" where
  "addressOwner r = (address r, userEmail r)"

section \<open>A small database for concrete runs\<close>

definition alice :: user where
  "alice = \<lparr>name = Some ''Alice'', email = ''alice@example.org'', user_image = None,
            bookedVisits = [\<lparr>visit_id = ''r1'', visit_date = ''2024-05-01''\<rparr>,
                            \<lparr>visit_id = ''r2'', visit_date = ''2024-05-02''\<rparr>],
            favResidenciesID = [''r2''], user_id = ''u1''\<rparr>"

definition bob :: user where
  "bob = \<lparr>name = None, email = ''bob@example.org'', user_image = None,
          bookedVisits = [], favResidenciesID = [], user_id = ''u2''\<rparr>"

definition flat :: residency_data where
  "flat = \<lparr>title = ''Flat'', description = ''Two rooms'', price = 900,
           address = ''1 Main St'', country = ''FR'', city = ''Lyon'',
           facilities = ''{}'', res_image = ''flat.png'', userEmail = ''alice@example.org''\<rparr>"

definition house :: residency_data where
  "house = flat\<lparr>title := ''House'', address := ''2 Main St''\<rparr>"

definition villa :: residency_data where
  "villa = flat\<lparr>title := ''Villa'', address := ''3 Main St''\<rparr>"

definition db0 :: db where
  "db0 = \<lparr>users = [alice, bob], residencies = [newResidency flat ''r1'' 1000]\<rparr>"

section \<open>Facts about the persistence client\<close>

lemma find_updateWhere_same:
  "(\<And>x. p (f x) = p x) \<Longrightarrow> find p (updateWhere p f xs) = map_option f (find p xs)"
  by (induction xs) auto

lemma find_updateWhere_other:
  "(\<And>x. q (f x) = q x) \<Longrightarrow> (\<And>x. p x \<Longrightarrow> \<not> q x)
   \<Longrightarrow> find q (updateWhere p f xs) = find q xs"
  by (induction xs) auto

lemma length_updateWhere: "length (updateWhere p f xs) = length xs"
  by (induction xs) auto

lemma list_ex_visit: "list_ex (\<lambda>v. visit_id v = i) vs \<longleftrightarrow> i \<in> set (map visit_id vs)"
  by (auto simp: list_ex_iff)

lemma user_findUnique_None: "user_findUnique s e = None \<longleftrightarrow> e \<notin> set (map email (users s))"
  by (auto simp: user_findUnique_def find_None_iff)

lemma user_update_found:
  assumes "user_findUnique s e = Some u"
  shows "user_update s e f = Inr (f u, s\<lparr>users := updateWhere (\<lambda>x. email x = e) f (users s)\<rparr>)"
  using assms by (simp add: user_update_def)

text \<open>An update that keeps the e-mail changes what one key finds and nothing else.\<close>

lemma user_findUnique_updated:
  assumes "\<And>x. email (f x) = email x"
  shows "user_findUnique (s\<lparr>users := updateWhere (\<lambda>x. email x = e) f (users s)\<rparr>) e'
         = (if e' = e then map_option f (user_findUnique s e) else user_findUnique s e')"
proof (cases "e' = e")
  case True
  have "find (\<lambda>x. email x = e) (updateWhere (\<lambda>x. email x = e) f (users s))
        = map_option f (find (\<lambda>x. email x = e) (users s))"
    by (rule find_updateWhere_same) (simp add: assms)
  with True show ?thesis by (simp add: user_findUnique_def)
next
  case False
  have "find (\<lambda>x. email x = e') (updateWhere (\<lambda>x. email x = e) f (users s))
        = find (\<lambda>x. email x = e') (users s)"
    by (rule find_updateWhere_other) (use False in \<open>auto simp: assms\<close>)
  with False show ?thesis by (simp add: user_findUnique_def)
qed

section \<open>Booking\<close>

text \<open>
  C1. When the booking list of the user stored under \<open>e\<close> already holds a record whose
  listing identifier is \<open>i\<close>, \<open>bookVisit\<close> answers with the status 400 and the
  message that the residency is already booked: a response that is sent, not an error that
  is thrown. The database is the one it was, so the booking list has the length it had.
\<close>

theorem bookVisit_duplicate:
  assumes "user_findUnique s e = Some u"
      and "i \<in> set (map visit_id (bookedVisits u))"
  shows "bookVisit s e i date = (Sent 400 (Message ''This residency is already booked by you''), s)
         \<and> statusOf (fst (bookVisit s e i date)) = 400
         \<and> map_option (\<lambda>u. length (bookedVisits u)) (user_findUnique (snd (bookVisit s e i date)) e)
             = Some (length (bookedVisits u))"
  using assms by (simp add: bookVisit_def list_ex_visit)

theorem bookVisit_duplicate_witness:
  "bookVisit db0 ''alice@example.org'' ''r2'' ''2024-06-01''
     = (Sent 400 (Message ''This residency is already booked by you''), db0)
   \<and> map_option (\<lambda>u. length (bookedVisits u))
        (user_findUnique (snd (bookVisit db0 ''alice@example.org'' ''r2'' ''2024-06-01''))
           ''alice@example.org'') = Some 2"
  using bookVisit_duplicate [of db0 "''alice@example.org''" alice "''r2''" "''2024-06-01''"]
  by (simp add: db0_def alice_def user_findUnique_def)

text \<open>
  C2. When the booking list of the user stored under \<open>e\<close> holds no record for the
  listing \<open>i\<close>, \<open>bookVisit\<close> answers that the visit is booked, and a later lookup of
  \<open>e\<close> finds the same user with the one record \<open>{ id = i, date }\<close> added at the end of
  the list, the records before it as they were. Every other user, the number of users and
  the listings are unchanged.
\<close>

theorem bookVisit_appends:
  assumes "user_findUnique s e = Some u"
      and "i \<notin> set (map visit_id (bookedVisits u))"
  shows "fst (bookVisit s e i date) = Sent 200 (Text ''Your visit is booked successfully'')
         \<and> user_findUnique (snd (bookVisit s e i date)) e
             = Some (u\<lparr>bookedVisits := bookedVisits u @ [\<lparr>visit_id = i, visit_date = date\<rparr>]\<rparr>)
         \<and> (\<forall>e'. e' \<noteq> e \<longrightarrow> user_findUnique (snd (bookVisit s e i date)) e' = user_findUnique s e')
         \<and> length (users (snd (bookVisit s e i date))) = length (users s)
         \<and> residencies (snd (bookVisit s e i date)) = residencies s"
  using assms
  by (simp add: bookVisit_def list_ex_visit user_update_found user_findUnique_updated
        length_updateWhere)

theorem bookVisit_appends_witness:
  "fst (bookVisit db0 ''alice@example.org'' ''r3'' ''2024-06-01'')
     = Sent 200 (Text ''Your visit is booked successfully'')
   \<and> map_option bookedVisits
        (user_findUnique (snd (bookVisit db0 ''alice@example.org'' ''r3'' ''2024-06-01''))
           ''alice@example.org'')
      = Some [\<lparr>visit_id = ''r1'', visit_date = ''2024-05-01''\<rparr>,
              \<lparr>visit_id = ''r2'', visit_date = ''2024-05-02''\<rparr>,
              \<lparr>visit_id = ''r3'', visit_date = ''2024-06-01''\<rparr>]
   \<and> user_findUnique (snd (bookVisit db0 ''alice@example.org'' ''r3'' ''2024-06-01''))
        ''bob@example.org'' = Some bob"
  using bookVisit_appends [of db0 "''alice@example.org''" alice "''r3''" "''2024-06-01''"]
  by (simp add: db0_def alice_def bob_def user_findUnique_def)

section \<open>An e-mail that no user has\<close>

text \<open>
  C10. When no user is stored under \<open>e\<close>, the lookup answers \<open>null\<close>, and \<open>bookVisit\<close>,
  \<open>cancelBooking\<close> and \<open>toFav\<close> each throw on reading the list of \<open>null\<close>: the client
  sees the status 500, not the 404 of a booking that was not found, and the database is
  unchanged.
\<close>

theorem missing_user_throws:
  assumes "e \<notin> set (map email (users s))"
  shows "bookVisit s e i date = (Thrown (NullRead ''bookedVisits''), s)
         \<and> cancelBooking s e i = (Thrown (NullRead ''bookedVisits''), s)
         \<and> toFav s e i = (Thrown (NullRead ''favResidenciesID''), s)
         \<and> statusOf (fst (bookVisit s e i date)) = 500
         \<and> statusOf (fst (cancelBooking s e i)) = 500
         \<and> statusOf (fst (toFav s e i)) = 500"
proof -
  from assms have "user_findUnique s e = None"
    by (simp add: user_findUnique_None)
  then show ?thesis
    by (simp add: bookVisit_def cancelBooking_def toFav_def)
qed

theorem missing_user_throws_witness:
  "bookVisit db0 ''carol@example.org'' ''r1'' ''2024-06-01'' = (Thrown (NullRead ''bookedVisits''), db0)
   \<and> cancelBooking db0 ''carol@example.org'' ''r1'' = (Thrown (NullRead ''bookedVisits''), db0)
   \<and> toFav db0 ''carol@example.org'' ''r1'' = (Thrown (NullRead ''favResidenciesID''), db0)
   \<and> statusOf (fst (cancelBooking db0 ''carol@example.org'' ''r1'')) = 500"
  using missing_user_throws [of "''carol@example.org''" db0 "''r1''" "''2024-06-01''"]
  by (simp add: db0_def alice_def bob_def)

section \<open>Registration\<close>

text \<open>
  C4. Registration is idempotent on the e-mail. When a user is already stored under the
  e-mail of the request, \<open>createUser\<close> answers with the status 201 and the message that
  the user is already registered, and the database is the one it was: no record is added
  and none is changed. When no user is stored under it, exactly one record is added, the
  new user with that e-mail, after the records that were there.
\<close>

theorem createUser_idempotent:
  "(email d \<in> set (map email (users s)) \<longrightarrow>
      createUser s ev d = (Sent 201 (Message ''User already registered''), s))
   \<and> (email d \<notin> set (map email (users s)) \<longrightarrow>
      createUser s ev d
        = (Sent 200 (MessageUser ''User registered successfully'' (newUser d (genId ev))),
           s\<lparr>users := users s @ [newUser d (genId ev)]\<rparr>)
      \<and> length (users (snd (createUser s ev d))) = length (users s) + 1
      \<and> email (newUser d (genId ev)) = email d)"
proof (intro conjI impI)
  assume "email d \<in> set (map email (users s))"
  then obtain u where "user_findUnique s (email d) = Some u"
    using user_findUnique_None [of s "email d"] by (cases "user_findUnique s (email d)") auto
  then show "createUser s ev d = (Sent 201 (Message ''User already registered''), s)"
    by (simp add: createUser_def)
next
  assume a: "email d \<notin> set (map email (users s))"
  then have n: "user_findUnique s (email d) = None"
    by (simp add: user_findUnique_None)
  from a have "\<not> list_ex (\<lambda>u. email u = email d) (users s)"
    by (force simp: list_ex_iff)
  with n show c: "createUser s ev d
        = (Sent 200 (MessageUser ''User registered successfully'' (newUser d (genId ev))),
           s\<lparr>users := users s @ [newUser d (genId ev)]\<rparr>)"
    by (simp add: createUser_def user_create_def Let_def)
  then show "length (users (snd (createUser s ev d))) = length (users s) + 1"
    by simp
  show "email (newUser d (genId ev)) = email d"
    by (simp add: newUser_def)
qed

theorem createUser_idempotent_witness:
  "createUser db0 \<lparr>genId = ''u3'', now = 2000\<rparr> (user_data.truncate alice)
     = (Sent 201 (Message ''User already registered''), db0)
   \<and> users (snd (createUser db0 \<lparr>genId = ''u3'', now = 2000\<rparr>
                   \<lparr>name = None, email = ''carol@example.org'', user_image = None,
                     bookedVisits = [], favResidenciesID = []\<rparr>))
      = [alice, bob, \<lparr>name = None, email = ''carol@example.org'', user_image = None,
                       bookedVisits = [], favResidenciesID = [], user_id = ''u3''\<rparr>]"
  using createUser_idempotent [of "user_data.truncate alice" db0 "\<lparr>genId = ''u3'', now = 2000\<rparr>"]
        createUser_idempotent [of "\<lparr>name = None, email = ''carol@example.org'', user_image = None,
                     bookedVisits = [], favResidenciesID = []\<rparr>" db0 "\<lparr>genId = ''u3'', now = 2000\<rparr>"]
  by (simp add: db0_def alice_def bob_def newUser_def user_data.truncate_def)

section \<open>Favourites\<close>

lemma toFav_state:
  assumes "user_findUnique s e = Some u"
  shows "user_findUnique (snd (toFav s e rid)) e
         = Some (u\<lparr>favResidenciesID :=
                     (if rid \<in> set (favResidenciesID u)
                      then filter (\<lambda>i. i \<noteq> rid) (favResidenciesID u)
                      else favResidenciesID u @ [rid])\<rparr>)"
  using assms
  by (simp add: toFav_def user_update_found user_findUnique_updated)

text \<open>
  C5. For a user stored under \<open>e\<close>, toggling the listing \<open>rid\<close> twice in a row leaves
  its membership in the favourites as it started: after the first \<open>toFav\<close> the listing is
  in the list exactly when it was not there at the start, and after the second it is in
  the list exactly when it was there at the start.
\<close>

theorem toFav_twice:
  assumes "user_findUnique s e = Some u"
  shows "(\<exists>u1. user_findUnique (snd (toFav s e rid)) e = Some u1
            \<and> (rid \<in> set (favResidenciesID u1) \<longleftrightarrow> rid \<notin> set (favResidenciesID u)))
         \<and> (\<exists>u2. user_findUnique (snd (toFav (snd (toFav s e rid)) e rid)) e = Some u2
            \<and> (rid \<in> set (favResidenciesID u2) \<longleftrightarrow> rid \<in> set (favResidenciesID u)))"
proof -
  let ?u1 = "u\<lparr>favResidenciesID :=
                     (if rid \<in> set (favResidenciesID u)
                      then filter (\<lambda>i. i \<noteq> rid) (favResidenciesID u)
                      else favResidenciesID u @ [rid])\<rparr>"
  have 1: "user_findUnique (snd (toFav s e rid)) e = Some ?u1"
    by (rule toFav_state [OF assms])
  have m1: "rid \<in> set (favResidenciesID ?u1) \<longleftrightarrow> rid \<notin> set (favResidenciesID u)"
    by simp
  let ?u2 = "?u1\<lparr>favResidenciesID :=
                     (if rid \<in> set (favResidenciesID ?u1)
                      then filter (\<lambda>i. i \<noteq> rid) (favResidenciesID ?u1)
                      else favResidenciesID ?u1 @ [rid])\<rparr>"
  have 2: "user_findUnique (snd (toFav (snd (toFav s e rid)) e rid)) e = Some ?u2"
    by (rule toFav_state [OF 1])
  have m2: "rid \<in> set (favResidenciesID ?u2) \<longleftrightarrow> rid \<in> set (favResidenciesID u)"
    by simp
  from 1 m1 2 m2 show ?thesis by blast
qed

theorem toFav_twice_witness:
  "(\<exists>u1. user_findUnique (snd (toFav db0 ''alice@example.org'' ''r7'')) ''alice@example.org'' = Some u1
         \<and> ''r7'' \<in> set (favResidenciesID u1))
   \<and> (\<exists>u2. user_findUnique (snd (toFav (snd (toFav db0 ''alice@example.org'' ''r7''))
                                     ''alice@example.org'' ''r7'')) ''alice@example.org'' = Some u2
         \<and> ''r7'' \<notin> set (favResidenciesID u2))"
  using toFav_twice [of db0 "''alice@example.org''" alice "''r7''"]
  by (simp add: db0_def alice_def user_findUnique_def)

section \<open>Cancelling a booking\<close>

lemma findIndex_ge: "- 1 \<le> findIndex p xs"
  by (induction xs) (auto simp: Let_def)

lemma findIndex_none: "findIndex p xs = - 1 \<longleftrightarrow> (\<forall>x \<in> set xs. \<not> p x)"
proof (induction xs)
  case Nil
  then show ?case by simp
next
  case (Cons x xs)
  have "- 1 \<le> findIndex p xs" by (rule findIndex_ge)
  with Cons show ?case by (auto simp: Let_def)
qed

lemma findIndex_first:
  assumes "\<exists>x \<in> set xs. p x"
  shows "0 \<le> findIndex p xs \<and> nat (findIndex p xs) < length xs
         \<and> p (xs ! nat (findIndex p xs))
         \<and> (\<forall>j < nat (findIndex p xs). \<not> p (xs ! j))"
  using assms
proof (induction xs)
  case Nil
  then show ?case by simp
next
  case (Cons x xs)
  show ?case
  proof (cases "p x")
    case True
    then show ?thesis by simp
  next
    case False
    with Cons.prems have ex: "\<exists>x \<in> set xs. p x" by auto
    then have ne: "findIndex p xs \<noteq> - 1" by (simp add: findIndex_none)
    from Cons.IH [OF ex] have ih: "0 \<le> findIndex p xs" "nat (findIndex p xs) < length xs"
      "p (xs ! nat (findIndex p xs))" "\<forall>j < nat (findIndex p xs). \<not> p (xs ! j)"
      by auto
    have eq: "findIndex p (x # xs) = findIndex p xs + 1"
      using False ne by (simp add: Let_def)
    have n: "nat (findIndex p xs + 1) = Suc (nat (findIndex p xs))"
      using ih(1) by simp
    show ?thesis
      unfolding eq n using ih False by (auto simp: less_Suc_eq_0_disj)
  qed
qed

lemma distinct_remove_nth:
  assumes "distinct (map f xs)" and "k < length xs"
  shows "f (xs ! k) \<notin> set (map f (take k xs @ drop (Suc k) xs))"
proof -
  have "xs = take k xs @ xs ! k # drop (Suc k) xs"
    using assms(2) by (rule id_take_nth_drop)
  then have "map f xs = map f (take k xs) @ f (xs ! k) # map f (drop (Suc k) xs)"
    by (metis list.simps(9) map_append)
  with assms(1) have "distinct (map f (take k xs) @ f (xs ! k) # map f (drop (Suc k) xs))"
    by simp
  then show ?thesis by auto
qed

lemma cancelBooking_absent:
  assumes "user_findUnique s e = Some u" and "i \<notin> set (map visit_id (bookedVisits u))"
  shows "cancelBooking s e i = (Sent 404 (Message ''Booking not found''), s)"
proof -
  from assms(2) have "findIndex (\<lambda>v. visit_id v = i) (bookedVisits u) = - 1"
    by (auto simp: findIndex_none)
  with assms(1) show ?thesis by (simp add: cancelBooking_def)
qed

lemma cancelBooking_present:
  assumes "user_findUnique s e = Some u" and "i \<in> set (map visit_id (bookedVisits u))"
  defines "k \<equiv> nat (findIndex (\<lambda>v. visit_id v = i) (bookedVisits u))"
  shows "k < length (bookedVisits u)"
    and "visit_id (bookedVisits u ! k) = i"
    and "\<forall>j < k. visit_id (bookedVisits u ! j) \<noteq> i"
    and "fst (cancelBooking s e i) = Sent 200 (Text ''Booking cancelled successfully'')"
    and "user_findUnique (snd (cancelBooking s e i)) e
         = Some (u\<lparr>bookedVisits := take k (bookedVisits u) @ drop (Suc k) (bookedVisits u)\<rparr>)"
proof -
  from assms(2) have ex: "\<exists>v \<in> set (bookedVisits u). visit_id v = i" by auto
  note fi = findIndex_first [of "bookedVisits u" "\<lambda>v. visit_id v = i", OF ex]
  from fi show "k < length (bookedVisits u)" "visit_id (bookedVisits u ! k) = i"
    "\<forall>j < k. visit_id (bookedVisits u ! j) \<noteq> i"
    by (simp_all add: k_def)
  from fi have ne: "findIndex (\<lambda>v. visit_id v = i) (bookedVisits u) \<noteq> - 1" by auto
  from assms(1) ne
  show "fst (cancelBooking s e i) = Sent 200 (Text ''Booking cancelled successfully'')"
    by (simp add: cancelBooking_def user_update_found)
  from assms(1) ne
  show "user_findUnique (snd (cancelBooking s e i)) e
         = Some (u\<lparr>bookedVisits := take k (bookedVisits u) @ drop (Suc k) (bookedVisits u)\<rparr>)"
    by (simp add: cancelBooking_def user_update_found user_findUnique_updated splice1_def k_def Let_def)
qed

text \<open>
  C6. For a user stored under \<open>e\<close>, \<open>cancelBooking\<close> answers 404 with the database
  unchanged exactly when the booking list holds no record for the listing \<open>i\<close>. When
  it holds one, the record at the first index \<open>k\<close> whose identifier is \<open>i\<close> is removed,
  the answer is that the booking is cancelled, and the list without that record is what a
  later lookup finds. If moreover the identifiers of the list were pairwise distinct, the
  list that \<open>getAllBookings\<close> then returns holds no record for \<open>i\<close>.
\<close>

theorem cancelBooking_spec:
  assumes "user_findUnique s e = Some u"
  shows "((fst (cancelBooking s e i) = Sent 404 (Message ''Booking not found'')
           \<and> snd (cancelBooking s e i) = s)
          \<longleftrightarrow> i \<notin> set (map visit_id (bookedVisits u)))
       \<and> (i \<in> set (map visit_id (bookedVisits u)) \<longrightarrow>
            (\<exists>k < length (bookedVisits u).
                visit_id (bookedVisits u ! k) = i
              \<and> (\<forall>j < k. visit_id (bookedVisits u ! j) \<noteq> i)
              \<and> fst (cancelBooking s e i) = Sent 200 (Text ''Booking cancelled successfully'')
              \<and> user_findUnique (snd (cancelBooking s e i)) e
                  = Some (u\<lparr>bookedVisits :=
                              take k (bookedVisits u) @ drop (Suc k) (bookedVisits u)\<rparr>)))
       \<and> (i \<in> set (map visit_id (bookedVisits u)) \<and> distinct (map visit_id (bookedVisits u)) \<longrightarrow>
            (\<exists>vs. fst (getAllBookings (snd (cancelBooking s e i)) e) = Sent 200 (BookedVisits vs)
                 \<and> i \<notin> set (map visit_id vs)))"
proof (intro conjI impI)
  show "(fst (cancelBooking s e i) = Sent 404 (Message ''Booking not found'')
           \<and> snd (cancelBooking s e i) = s)
          \<longleftrightarrow> i \<notin> set (map visit_id (bookedVisits u))"
  proof (cases "i \<in> set (map visit_id (bookedVisits u))")
    case True
    from cancelBooking_present(4) [OF assms True] True show ?thesis by simp
  next
    case False
    from cancelBooking_absent [OF assms False] False show ?thesis by simp
  qed
next
  assume p: "i \<in> set (map visit_id (bookedVisits u))"
  from cancelBooking_present [OF assms p]
  show "\<exists>k < length (bookedVisits u).
                visit_id (bookedVisits u ! k) = i
              \<and> (\<forall>j < k. visit_id (bookedVisits u ! j) \<noteq> i)
              \<and> fst (cancelBooking s e i) = Sent 200 (Text ''Booking cancelled successfully'')
              \<and> user_findUnique (snd (cancelBooking s e i)) e
                  = Some (u\<lparr>bookedVisits :=
                              take k (bookedVisits u) @ drop (Suc k) (bookedVisits u)\<rparr>)"
    by blast
next
  assume "i \<in> set (map visit_id (bookedVisits u)) \<and> distinct (map visit_id (bookedVisits u))"
  then have p: "i \<in> set (map visit_id (bookedVisits u))"
    and d: "distinct (map visit_id (bookedVisits u))" by auto
  let ?k = "nat (findIndex (\<lambda>v. visit_id v = i) (bookedVisits u))"
  let ?vs = "take ?k (bookedVisits u) @ drop (Suc ?k) (bookedVisits u)"
  note cp = cancelBooking_present [OF assms p]
  from distinct_remove_nth [OF d cp(1)] cp(2)
  have "i \<notin> set (map visit_id ?vs)" by simp
  moreover from cp(5)
  have "fst (getAllBookings (snd (cancelBooking s e i)) e) = Sent 200 (BookedVisits ?vs)"
    by (simp add: getAllBookings_def)
  ultimately show "\<exists>vs. fst (getAllBookings (snd (cancelBooking s e i)) e) = Sent 200 (BookedVisits vs)
                 \<and> i \<notin> set (map visit_id vs)"
    by blast
qed

theorem cancelBooking_spec_witness:
  "fst (cancelBooking db0 ''alice@example.org'' ''r9'') = Sent 404 (Message ''Booking not found'')
   \<and> snd (cancelBooking db0 ''alice@example.org'' ''r9'') = db0
   \<and> fst (cancelBooking db0 ''alice@example.org'' ''r1'')
       = Sent 200 (Text ''Booking cancelled successfully'')
   \<and> (\<exists>vs. fst (getAllBookings (snd (cancelBooking db0 ''alice@example.org'' ''r1''))
                    ''alice@example.org'') = Sent 200 (BookedVisits vs)
          \<and> ''r1'' \<notin> set (map visit_id vs))"
proof -
  have f: "user_findUnique db0 ''alice@example.org'' = Some alice"
    by (simp add: db0_def alice_def user_findUnique_def)
  have a: "''r9'' \<notin> set (map visit_id (bookedVisits alice))"
    by (simp add: alice_def)
  have b: "''r1'' \<in> set (map visit_id (bookedVisits alice))"
    and d: "distinct (map visit_id (bookedVisits alice))"
    by (simp_all add: alice_def)
  from cancelBooking_spec [OF f, of "''r9''"] a
  have 1: "fst (cancelBooking db0 ''alice@example.org'' ''r9'') = Sent 404 (Message ''Booking not found'')
           \<and> snd (cancelBooking db0 ''alice@example.org'' ''r9'') = db0"
    by blast
  from cancelBooking_spec [OF f, of "''r1''"] b d
  have 2: "fst (cancelBooking db0 ''alice@example.org'' ''r1'')
             = Sent 200 (Text ''Booking cancelled successfully'')
           \<and> (\<exists>vs. fst (getAllBookings (snd (cancelBooking db0 ''alice@example.org'' ''r1''))
                    ''alice@example.org'') = Sent 200 (BookedVisits vs)
                \<and> ''r1'' \<notin> set (map visit_id vs))"
    by blast
  from 1 2 show ?thesis by blast
qed

section \<open>Fetching one listing\<close>

lemma find_distinct_key:
  assumes "distinct (map f xs)" and "x \<in> set xs"
  shows "find (\<lambda>y. f y = f x) xs = Some x"
  using assms by (induction xs) (auto simp: image_iff)

lemma residency_findUnique_None:
  "residency_findUnique s i = None \<longleftrightarrow> i \<notin> set (map res_id (residencies s))"
  by (auto simp: residency_findUnique_def find_None_iff)

text \<open>
  C9. \<open>getResidency\<close> answers with the stored listing whose identifier is \<open>i\<close> when
  there is one (identifiers being pairwise distinct, it is the only one). When no stored
  listing has the identifier, the lookup gives \<open>null\<close> and the answer is still a response
  with the status 200, its body empty: the miss is not an error.
\<close>

theorem getResidency_spec:
  "(r \<in> set (residencies s) \<and> res_id r = i \<and> distinct (map res_id (residencies s)) \<longrightarrow>
      getResidency s i = (Sent 200 (OneResidency r), s))
   \<and> (i \<notin> set (map res_id (residencies s)) \<longrightarrow>
      getResidency s i = (Sent 200 Null, s) \<and> statusOf (fst (getResidency s i)) = 200)"
proof (intro conjI impI)
  assume "r \<in> set (residencies s) \<and> res_id r = i \<and> distinct (map res_id (residencies s))"
  then have "find (\<lambda>y. res_id y = i) (residencies s) = Some r"
    using find_distinct_key [of res_id "residencies s" r] by auto
  then show "getResidency s i = (Sent 200 (OneResidency r), s)"
    by (simp add: getResidency_def residency_findUnique_def)
next
  assume "i \<notin> set (map res_id (residencies s))"
  then have "residency_findUnique s i = None"
    by (simp add: residency_findUnique_None)
  then show "getResidency s i = (Sent 200 Null, s)"
    by (simp add: getResidency_def)
  then show "statusOf (fst (getResidency s i)) = 200"
    by simp
qed

theorem getResidency_spec_witness:
  "getResidency db0 ''r1'' = (Sent 200 (OneResidency (newResidency flat ''r1'' 1000)), db0)
   \<and> getResidency db0 ''r5'' = (Sent 200 Null, db0)"
  using getResidency_spec [of "newResidency flat ''r1'' 1000" db0 "''r1''"]
        getResidency_spec [of "newResidency flat ''r1'' 1000" db0 "''r5''"]
  by (simp add: db0_def newResidency_def)

section \<open>Listing the residencies\<close>

lemma sort_key_snoc_least:
  assumes "\<forall>y \<in> set xs. f x < f y"
  shows "foldr (insort_key f) xs [x] = x # foldr (insort_key f) xs []"
  using assms
proof (induction xs)
  case Nil
  then show ?case by simp
next
  case (Cons y ys)
  then have "foldr (insort_key f) ys [x] = x # foldr (insort_key f) ys []" by simp
  moreover from Cons.prems have "\<not> f y \<le> f x" by auto
  ultimately show ?case by simp
qed

lemma findMany_desc_newest:
  assumes "\<forall>y \<in> set (residencies s). createdAt y < createdAt r"
  shows "residency_findMany_desc (s\<lparr>residencies := residencies s @ [r]\<rparr>)
         = r # residency_findMany_desc s"
proof -
  have "foldr (insort_key (\<lambda>r. - createdAt r)) (residencies s) [r]
        = r # foldr (insort_key (\<lambda>r. - createdAt r)) (residencies s) []"
    by (rule sort_key_snoc_least) (use assms in auto)
  then show ?thesis
    by (simp add: residency_findMany_desc_def sort_key_def)
qed

lemma findMany_desc_sorted:
  "sorted_wrt (\<lambda>a b. createdAt b \<le> createdAt a) (residency_findMany_desc s)"
proof -
  have "sorted (map (\<lambda>r. - createdAt r) (sort_key (\<lambda>r. - createdAt r) (residencies s)))"
    by (rule sorted_sort_key)
  then show ?thesis
    by (simp add: residency_findMany_desc_def sorted_map)
qed

lemma findMany_desc_mset: "mset (residency_findMany_desc s) = mset (residencies s)"
  by (simp add: residency_findMany_desc_def)

lemma createResidency_ok:
  assumes "createResidency s ev d = (Sent st (MessageResidency m r), s')"
  shows "r = newResidency d (genId ev) (now ev) \<and> s' = s\<lparr>residencies := residencies s @ [r]\<rparr>"
  using assms
  by (auto simp: createResidency_def residency_create_def Let_def
           split: sum.splits option.splits if_splits)

text \<open>
  C7. \<open>getAllResidencies\<close> answers 200 with every stored listing, each as often as it is
  stored, a later creation time never after an earlier one. With no listing stored, the
  answer is the empty list, a response and not an error. Three listings created one after
  the other, each at a later time than the one before and than every listing stored
  already, come back in the reverse of the order of creation, before the older ones.
\<close>

theorem getAllResidencies_spec:
  "(\<exists>rs. getAllResidencies s = (Sent 200 (Residencies rs), s)
         \<and> mset rs = mset (residencies s)
         \<and> sorted_wrt (\<lambda>a b. createdAt b \<le> createdAt a) rs)
   \<and> (residencies s = [] \<longrightarrow> getAllResidencies s = (Sent 200 (Residencies []), s))
   \<and> (createResidency s0 ev1 d1 = (Sent 200 (MessageResidency m1 r1), s1)
        \<and> createResidency s1 ev2 d2 = (Sent 200 (MessageResidency m2 r2), s2)
        \<and> createResidency s2 ev3 d3 = (Sent 200 (MessageResidency m3 r3), s3)
        \<and> (\<forall>r \<in> set (residencies s0). createdAt r < now ev1)
        \<and> now ev1 < now ev2 \<and> now ev2 < now ev3 \<longrightarrow>
        fst (getAllResidencies s3)
          = Sent 200 (Residencies (r3 # r2 # r1 # residency_findMany_desc s0)))"
proof (intro conjI impI)
  show "\<exists>rs. getAllResidencies s = (Sent 200 (Residencies rs), s)
         \<and> mset rs = mset (residencies s)
         \<and> sorted_wrt (\<lambda>a b. createdAt b \<le> createdAt a) rs"
    using findMany_desc_mset [of s] findMany_desc_sorted [of s]
    by (simp add: getAllResidencies_def)
next
  assume "residencies s = []"
  then show "getAllResidencies s = (Sent 200 (Residencies []), s)"
    by (simp add: getAllResidencies_def residency_findMany_desc_def)
next
  assume a: "createResidency s0 ev1 d1 = (Sent 200 (MessageResidency m1 r1), s1)
        \<and> createResidency s1 ev2 d2 = (Sent 200 (MessageResidency m2 r2), s2)
        \<and> createResidency s2 ev3 d3 = (Sent 200 (MessageResidency m3 r3), s3)
        \<and> (\<forall>r \<in> set (residencies s0). createdAt r < now ev1)
        \<and> now ev1 < now ev2 \<and> now ev2 < now ev3"
  from a createResidency_ok [of s0 ev1 d1 200 m1 r1 s1]
  have 1: "createdAt r1 = now ev1" "s1 = s0\<lparr>residencies := residencies s0 @ [r1]\<rparr>"
    by (simp_all add: newResidency_def)
  from a createResidency_ok [of s1 ev2 d2 200 m2 r2 s2]
  have 2: "createdAt r2 = now ev2" "s2 = s1\<lparr>residencies := residencies s1 @ [r2]\<rparr>"
    by (simp_all add: newResidency_def)
  from a createResidency_ok [of s2 ev3 d3 200 m3 r3 s3]
  have 3: "createdAt r3 = now ev3" "s3 = s2\<lparr>residencies := residencies s2 @ [r3]\<rparr>"
    by (simp_all add: newResidency_def)
  from a 1 have o1: "\<forall>y \<in> set (residencies s0). createdAt y < createdAt r1"
    by simp
  from a 1 2 have o2: "\<forall>y \<in> set (residencies s1). createdAt y < createdAt r2"
    by auto
  from a 1 2 3 have o3: "\<forall>y \<in> set (residencies s2). createdAt y < createdAt r3"
    by auto
  have "residency_findMany_desc s1 = r1 # residency_findMany_desc s0"
    unfolding 1(2) by (rule findMany_desc_newest [OF o1])
  moreover have "residency_findMany_desc s2 = r2 # residency_findMany_desc s1"
    unfolding 2(2) by (rule findMany_desc_newest [OF o2])
  moreover have "residency_findMany_desc s3 = r3 # residency_findMany_desc s2"
    unfolding 3(2) by (rule findMany_desc_newest [OF o3])
  ultimately show "fst (getAllResidencies s3)
          = Sent 200 (Residencies (r3 # r2 # r1 # residency_findMany_desc s0))"
    by (simp add: getAllResidencies_def)
qed

theorem getAllResidencies_spec_witness:
  "getAllResidencies \<lparr>users = [alice], residencies = []\<rparr>
     = (Sent 200 (Residencies []), \<lparr>users = [alice], residencies = []\<rparr>)
   \<and> fst (getAllResidencies
         (snd (createResidency
           (snd (createResidency
             (snd (createResidency db0 \<lparr>genId = ''r2'', now = 2000\<rparr> house))
             \<lparr>genId = ''r3'', now = 3000\<rparr> villa))
           \<lparr>genId = ''r4'', now = 4000\<rparr> (flat\<lparr>address := ''4 Main St''\<rparr>))))
      = Sent 200 (Residencies
          [newResidency (flat\<lparr>address := ''4 Main St''\<rparr>) ''r4'' 4000,
           newResidency villa ''r3'' 3000,
           newResidency house ''r2'' 2000,
           newResidency flat ''r1'' 1000])"
proof -
  let ?e = "\<lparr>users = [alice], residencies = []\<rparr>"
  let ?d4 = "flat\<lparr>address := ''4 Main St''\<rparr>"
  let ?ev2 = "\<lparr>genId = ''r2'', now = 2000\<rparr>"
  let ?ev3 = "\<lparr>genId = ''r3'', now = 3000\<rparr>"
  let ?ev4 = "\<lparr>genId = ''r4'', now = 4000\<rparr>"
  let ?s1 = "db0\<lparr>residencies := residencies db0 @ [newResidency house ''r2'' 2000]\<rparr>"
  let ?s2 = "?s1\<lparr>residencies := residencies ?s1 @ [newResidency villa ''r3'' 3000]\<rparr>"
  let ?s3 = "?s2\<lparr>residencies := residencies ?s2 @ [newResidency ?d4 ''r4'' 4000]\<rparr>"
  have c1: "createResidency db0 ?ev2 house
            = (Sent 200 (MessageResidency ''Residency created successfully''
                 (newResidency house ''r2'' 2000)), ?s1)"
    by (simp add: createResidency_def residency_create_def user_findUnique_def db0_def Let_def
          alice_def house_def flat_def newResidency_def)
  have c2: "createResidency ?s1 ?ev3 villa
            = (Sent 200 (MessageResidency ''Residency created successfully''
                 (newResidency villa ''r3'' 3000)), ?s2)"
    by (simp add: createResidency_def residency_create_def user_findUnique_def db0_def Let_def
          alice_def house_def villa_def flat_def newResidency_def)
  have c3: "createResidency ?s2 ?ev4 ?d4
            = (Sent 200 (MessageResidency ''Residency created successfully''
                 (newResidency ?d4 ''r4'' 4000)), ?s3)"
    by (simp add: createResidency_def residency_create_def user_findUnique_def db0_def Let_def
          alice_def house_def villa_def flat_def newResidency_def)
  have old: "\<forall>r \<in> set (residencies db0). createdAt r < now ?ev2"
    by (simp add: db0_def newResidency_def)
  have d0: "residency_findMany_desc db0 = [newResidency flat ''r1'' 1000]"
    by (simp add: residency_findMany_desc_def db0_def)
  have "fst (getAllResidencies ?s3)
        = Sent 200 (Residencies (newResidency ?d4 ''r4'' 4000 # newResidency villa ''r3'' 3000
            # newResidency house ''r2'' 2000 # residency_findMany_desc db0))"
    using getAllResidencies_spec [of ?e db0 ?ev2 house "''Residency created successfully''"
        "newResidency house ''r2'' 2000" ?s1 ?ev3 villa "''Residency created successfully''"
        "newResidency villa ''r3'' 3000" ?s2 ?ev4 ?d4 "''Residency created successfully''"
        "newResidency ?d4 ''r4'' 4000" ?s3] c1 c2 c3 old
    by simp
  moreover have "getAllResidencies ?e = (Sent 200 (Residencies []), ?e)"
    using getAllResidencies_spec [of ?e db0 ?ev2 house "''Residency created successfully''"
        "newResidency house ''r2'' 2000" ?s1 ?ev3 villa "''Residency created successfully''"
        "newResidency villa ''r3'' 3000" ?s2 ?ev4 ?d4 "''Residency created successfully''"
        "newResidency ?d4 ''r4'' 4000" ?s3]
    by simp
  ultimately show ?thesis
    by (simp only: c1 c2 c3 d0 snd_conv)
qed

section \<open>Every route keeps the booking list free of duplicates\<close>

lemma find_append_found: "find p xs = Some x \<Longrightarrow> find p (xs @ ys) = Some x"
  by (induction xs) (auto split: if_splits)

lemma bookingsDistinct_same_users:
  "users s' = users s \<Longrightarrow> bookingsDistinct s' e = bookingsDistinct s e"
  by (simp add: bookingsDistinct_def user_findUnique_def)

lemma createResidency_users: "users (snd (createResidency s ev d)) = users s"
  by (simp add: createResidency_def residency_create_def Let_def split: option.splits)

lemma createUser_keeps:
  assumes "bookingsDistinct s e"
  shows "bookingsDistinct (snd (createUser s ev d)) e"
proof (cases "user_findUnique s (email d)")
  case None
  then have "\<not> list_ex (\<lambda>u. email u = email d) (users s)"
    by (force simp: user_findUnique_None list_ex_iff)
  with None have s': "snd (createUser s ev d) = s\<lparr>users := users s @ [newUser d (genId ev)]\<rparr>"
    by (simp add: createUser_def user_create_def Let_def)
  from assms obtain u where u: "user_findUnique s e = Some u"
    and d: "distinct (map visit_id (bookedVisits u))"
    by (auto simp: bookingsDistinct_def split: option.splits)
  from u have "user_findUnique (s\<lparr>users := users s @ [newUser d (genId ev)]\<rparr>) e = Some u"
    by (simp add: user_findUnique_def find_append_found)
  with d s' show ?thesis by (simp add: bookingsDistinct_def)
next
  case (Some a)
  then have "snd (createUser s ev d) = s" by (simp add: createUser_def)
  with assms show ?thesis by simp
qed

lemma bookVisit_keeps:
  assumes "bookingsDistinct s e"
  shows "bookingsDistinct (snd (bookVisit s e' i date)) e"
proof (cases "user_findUnique s e'")
  case None
  then have "snd (bookVisit s e' i date) = s" by (simp add: bookVisit_def)
  with assms show ?thesis by simp
next
  case (Some u')
  show ?thesis
  proof (cases "i \<in> set (map visit_id (bookedVisits u'))")
    case True
    with Some have "snd (bookVisit s e' i date) = s"
      by (simp add: bookVisit_def list_ex_visit)
    with assms show ?thesis by simp
  next
    case False
    let ?f = "\<lambda>u. u\<lparr>bookedVisits := bookedVisits u @ [\<lparr>visit_id = i, visit_date = date\<rparr>]\<rparr>"
    from Some False
    have s': "snd (bookVisit s e' i date)
              = s\<lparr>users := updateWhere (\<lambda>x. email x = e') ?f (users s)\<rparr>"
      by (simp add: bookVisit_def list_ex_visit user_update_found)
    have look: "user_findUnique (snd (bookVisit s e' i date)) e
                = (if e = e' then map_option ?f (user_findUnique s e') else user_findUnique s e)"
      unfolding s' by (rule user_findUnique_updated) simp
    show ?thesis
    proof (cases "e = e'")
      case True
      with assms Some have "distinct (map visit_id (bookedVisits u'))"
        by (simp add: bookingsDistinct_def)
      with False True Some look show ?thesis
        by (simp add: bookingsDistinct_def)
    next
      case ne: False
      with look assms show ?thesis by (simp add: bookingsDistinct_def)
    qed
  qed
qed

lemma distinct_splice: "distinct ys \<Longrightarrow> distinct (take k ys @ drop (Suc k) ys)"
proof (induction ys arbitrary: k)
  case Nil
  then show ?case by simp
next
  case (Cons y ys)
  show ?case
  proof (cases k)
    case 0
    with Cons.prems show ?thesis by simp
  next
    case (Suc k')
    from Cons.prems have "y \<notin> set (take k' ys)" "y \<notin> set (drop (Suc k') ys)"
      by (auto dest: in_set_takeD in_set_dropD)
    with Cons Suc show ?thesis by simp
  qed
qed

lemma distinct_map_splice:
  assumes "distinct (map f xs)"
  shows "distinct (map f (take k xs @ drop (Suc k) xs))"
proof -
  have "map f (take k xs @ drop (Suc k) xs)
        = take k (map f xs) @ drop (Suc k) (map f xs)"
    by (simp add: take_map drop_map)
  with distinct_splice [OF assms, of k] show ?thesis by simp
qed

lemma cancelBooking_keeps:
  assumes "bookingsDistinct s e"
  shows "bookingsDistinct (snd (cancelBooking s e' i)) e"
proof (cases "user_findUnique s e'")
  case None
  then have "snd (cancelBooking s e' i) = s" by (simp add: cancelBooking_def)
  with assms show ?thesis by simp
next
  case (Some u')
  let ?ix = "findIndex (\<lambda>v. visit_id v = i) (bookedVisits u')"
  show ?thesis
  proof (cases "?ix = - 1")
    case True
    with Some have "snd (cancelBooking s e' i) = s"
      by (simp add: cancelBooking_def)
    with assms show ?thesis by simp
  next
    case False
    let ?f = "\<lambda>u::user. u\<lparr>bookedVisits := splice1 (bookedVisits u') ?ix\<rparr>"
    from Some False
    have s': "snd (cancelBooking s e' i)
              = s\<lparr>users := updateWhere (\<lambda>x. email x = e') ?f (users s)\<rparr>"
      by (simp add: cancelBooking_def user_update_found Let_def)
    have look: "user_findUnique (snd (cancelBooking s e' i)) e
                = (if e = e' then map_option ?f (user_findUnique s e') else user_findUnique s e)"
      unfolding s' by (rule user_findUnique_updated) simp
    show ?thesis
    proof (cases "e = e'")
      case True
      with assms Some have "distinct (map visit_id (bookedVisits u'))"
        by (simp add: bookingsDistinct_def)
      then have "distinct (map visit_id (splice1 (bookedVisits u') ?ix))"
        unfolding splice1_def Suc_eq_plus1 [symmetric] by (rule distinct_map_splice)
      with True Some look show ?thesis
        by (simp add: bookingsDistinct_def)
    next
      case ne: False
      with look assms show ?thesis by (simp add: bookingsDistinct_def)
    qed
  qed
qed

lemma toFav_keeps:
  assumes "bookingsDistinct s e"
  shows "bookingsDistinct (snd (toFav s e' rid)) e"
proof (cases "user_findUnique s e'")
  case None
  then have "snd (toFav s e' rid) = s" by (simp add: toFav_def)
  with assms show ?thesis by simp
next
  case (Some u')
  let ?f = "\<lambda>u::user. u\<lparr>favResidenciesID :=
                  (if rid \<in> set (favResidenciesID u')
                   then filter (\<lambda>i. i \<noteq> rid) (favResidenciesID u')
                   else favResidenciesID u @ [rid])\<rparr>"
  from Some
  have s': "snd (toFav s e' rid) = s\<lparr>users := updateWhere (\<lambda>x. email x = e') ?f (users s)\<rparr>"
    by (simp add: toFav_def user_update_found)
  have look: "user_findUnique (snd (toFav s e' rid)) e
              = (if e = e' then map_option ?f (user_findUnique s e') else user_findUnique s e)"
    unfolding s' by (rule user_findUnique_updated) simp
  from assms look Some show ?thesis
    by (auto simp: bookingsDistinct_def split: option.splits if_splits)
qed

text \<open>
  C8. If the user stored under \<open>e\<close> has a booking list with pairwise distinct listing
  identifiers, then after any request on any of the nine routes (booking, cancelling,
  toggling a favourite, registering, creating a listing and the four reads, for this user
  or another) the user is still stored under \<open>e\<close> and the identifiers of the booking
  list are still pairwise distinct.
\<close>

theorem route_keeps_bookings_distinct:
  assumes "bookingsDistinct s e"
  shows "bookingsDistinct (snd (route s ev req)) e"
proof (cases req)
  case (PostCreate d)
  with assms show ?thesis
    by (simp add: bookingsDistinct_same_users [OF createResidency_users])
next
  case GetAllresd
  with assms show ?thesis by (simp add: getAllResidencies_def)
next
  case (GetResidencyById i)
  with assms show ?thesis by (simp add: getResidency_def split: option.splits)
next
  case (PostRegister d)
  with assms show ?thesis by (simp add: createUser_keeps)
next
  case (PostBookVisit i e' date)
  with assms show ?thesis by (simp add: bookVisit_keeps)
next
  case (PostAllBookings e')
  with assms show ?thesis by (simp add: getAllBookings_def split: option.splits)
next
  case (PostRemoveBooking i e')
  with assms show ?thesis by (simp add: cancelBooking_keeps)
next
  case (PostToFav rid e')
  with assms show ?thesis by (simp add: toFav_keeps)
next
  case (PostAllFav e')
  with assms show ?thesis by (simp add: getAllFavorites_def split: option.splits)
qed

theorem route_keeps_bookings_distinct_witness:
  "bookingsDistinct db0 ''alice@example.org''
   \<and> bookingsDistinct (snd (route db0 \<lparr>genId = ''x'', now = 2000\<rparr>
                              (PostBookVisit ''r3'' ''alice@example.org'' ''2024-06-01'')))
        ''alice@example.org''
   \<and> bookingsDistinct (snd (route db0 \<lparr>genId = ''x'', now = 2000\<rparr>
                              (PostRemoveBooking ''r1'' ''alice@example.org'')))
        ''alice@example.org''"
proof -
  have h: "bookingsDistinct db0 ''alice@example.org''"
    by (simp add: bookingsDistinct_def user_findUnique_def db0_def alice_def)
  from h route_keeps_bookings_distinct [OF h] show ?thesis by blast
qed

section \<open>Creating a listing\<close>

lemma map_email_updateWhere:
  "(\<And>x. email (f x) = email x) \<Longrightarrow> map email (updateWhere p f xs) = map email xs"
  by (induction xs) auto

lemma bookVisit_frame:
  "map email (users (snd (bookVisit s e i date))) = map email (users s)
   \<and> residencies (snd (bookVisit s e i date)) = residencies s"
  by (simp add: bookVisit_def user_update_def map_email_updateWhere split: option.splits)

lemma cancelBooking_frame:
  "map email (users (snd (cancelBooking s e i))) = map email (users s)
   \<and> residencies (snd (cancelBooking s e i)) = residencies s"
  by (simp add: cancelBooking_def user_update_def map_email_updateWhere Let_def
        split: option.splits)

lemma toFav_frame:
  "map email (users (snd (toFav s e rid))) = map email (users s)
   \<and> residencies (snd (toFav s e rid)) = residencies s"
  by (simp add: toFav_def user_update_def map_email_updateWhere split: option.splits)

lemma createUser_frame:
  "set (map email (users s)) \<subseteq> set (map email (users (snd (createUser s ev d))))
   \<and> residencies (snd (createUser s ev d)) = residencies s"
  by (auto simp: createUser_def user_create_def Let_def split: option.splits)

lemma createResidency_cases:
  "snd (createResidency s ev d) = s
   \<or> (snd (createResidency s ev d)
         = s\<lparr>residencies := residencies s @ [newResidency d (genId ev) (now ev)]\<rparr>
      \<and> userEmail d \<in> set (map email (users s))
      \<and> (address d, userEmail d) \<notin> set (map addressOwner (residencies s)))"
proof (cases "user_findUnique s (userEmail d)")
  case None
  then show ?thesis by (simp add: createResidency_def residency_create_def)
next
  case (Some u)
  then have reg: "userEmail d \<in> set (map email (users s))"
    using user_findUnique_None [of s "userEmail d"] by auto
  show ?thesis
  proof (cases "list_ex (\<lambda>r. address r = address d \<and> userEmail r = userEmail d) (residencies s)")
    case True
    with Some show ?thesis by (simp add: createResidency_def residency_create_def)
  next
    case False
    then have "(address d, userEmail d) \<notin> set (map addressOwner (residencies s))"
      by (auto simp: list_ex_iff addressOwner_def)
    with Some False reg show ?thesis
      by (simp add: createResidency_def residency_create_def Let_def)
  qed
qed

lemma route_frame:
  "set (map email (users s)) \<subseteq> set (map email (users (snd (route s ev req))))
   \<and> (residencies (snd (route s ev req)) = residencies s
      \<or> (\<exists>d. req = PostCreate d \<and> users (snd (route s ev req)) = users s
            \<and> residencies (snd (route s ev req))
                = residencies s @ [newResidency d (genId ev) (now ev)]
            \<and> userEmail d \<in> set (map email (users s))
            \<and> (address d, userEmail d) \<notin> set (map addressOwner (residencies s))))"
proof (cases req)
  case (PostCreate d)
  from createResidency_cases [of s ev d] PostCreate show ?thesis
    by (elim disjE) auto
next
  case GetAllresd
  then show ?thesis by (simp add: getAllResidencies_def)
next
  case (GetResidencyById i)
  then show ?thesis by (simp add: getResidency_def split: option.splits)
next
  case (PostRegister d)
  with createUser_frame [of s ev d] show ?thesis by simp
next
  case (PostBookVisit i e date)
  with bookVisit_frame [of s e i date] show ?thesis by simp
next
  case (PostAllBookings e)
  then show ?thesis by (simp add: getAllBookings_def split: option.splits)
next
  case (PostRemoveBooking i e)
  with cancelBooking_frame [of s e i] show ?thesis by simp
next
  case (PostToFav rid e)
  with toFav_frame [of s e rid] show ?thesis by simp
next
  case (PostAllFav e)
  then show ?thesis by (simp add: getAllFavorites_def split: option.splits)
qed

lemma ownersRegistered_iff:
  "ownersRegistered s \<longleftrightarrow> (\<forall>r \<in> set (residencies s). userEmail r \<in> set (map email (users s)))"
  by (force simp: ownersRegistered_def list_all_iff list_ex_iff image_iff)

lemma route_keeps_ownersRegistered:
  assumes "ownersRegistered s"
  shows "ownersRegistered (snd (route s ev req))"
proof -
  let ?s' = "snd (route s ev req)"
  from route_frame [of s ev req]
  have em: "set (map email (users s)) \<subseteq> set (map email (users ?s'))"
    and rs: "residencies ?s' = residencies s
      \<or> (\<exists>d. residencies ?s' = residencies s @ [newResidency d (genId ev) (now ev)]
            \<and> userEmail d \<in> set (map email (users s)))"
    by blast+
  from rs show ?thesis
  proof
    assume "residencies ?s' = residencies s"
    with assms em show ?thesis unfolding ownersRegistered_iff by auto
  next
    assume "\<exists>d. residencies ?s' = residencies s @ [newResidency d (genId ev) (now ev)]
            \<and> userEmail d \<in> set (map email (users s))"
    then obtain d where d: "residencies ?s' = residencies s @ [newResidency d (genId ev) (now ev)]"
      "userEmail d \<in> set (map email (users s))" by blast
    have "userEmail (newResidency d (genId ev) (now ev)) = userEmail d"
      by (simp add: newResidency_def)
    with assms em d show ?thesis unfolding ownersRegistered_iff by auto
  qed
qed

lemma route_keeps_addressOwner_distinct:
  assumes "distinct (map addressOwner (residencies s))"
  shows "distinct (map addressOwner (residencies (snd (route s ev req))))"
proof -
  let ?s' = "snd (route s ev req)"
  from route_frame [of s ev req]
  have "residencies ?s' = residencies s
      \<or> (\<exists>d. residencies ?s' = residencies s @ [newResidency d (genId ev) (now ev)]
            \<and> (address d, userEmail d) \<notin> set (map addressOwner (residencies s)))"
    by blast
  then show ?thesis
  proof
    assume "residencies ?s' = residencies s"
    with assms show ?thesis by simp
  next
    assume "\<exists>d. residencies ?s' = residencies s @ [newResidency d (genId ev) (now ev)]
            \<and> (address d, userEmail d) \<notin> set (map addressOwner (residencies s))"
    then obtain d where d: "residencies ?s' = residencies s @ [newResidency d (genId ev) (now ev)]"
      "(address d, userEmail d) \<notin> set (map addressOwner (residencies s))" by blast
    have "addressOwner (newResidency d (genId ev) (now ev)) = (address d, userEmail d)"
      by (simp add: newResidency_def addressOwner_def)
    with assms d show ?thesis by simp
  qed
qed

lemma ownersRegistered_empty: "ownersRegistered \<lparr>users = [], residencies = []\<rparr>"
  by (simp add: ownersRegistered_def)

text \<open>
  C3. The pair of address and owner e-mail is unique among the stored listings. When a
  listing with the address and the owner e-mail of the request is already stored (in a
  database where the owner of every listing is registered, which every route keeps so),
  \<open>createResidency\<close> fails: the unique index refuses the write with \<open>P2002\<close> and the
  handler throws its own error for it. The database is unchanged, so the first listing is
  still stored and is fetched as before. And no request on any route makes two stored
  listings share the pair.
\<close>

theorem createResidency_unique:
  "(r \<in> set (residencies s) \<and> address r = address d \<and> userEmail r = userEmail d
      \<and> ownersRegistered s \<longrightarrow>
        createResidency s ev d = (Thrown AddressExists, s)
      \<and> statusOf (fst (createResidency s ev d)) = 500
      \<and> r \<in> set (residencies (snd (createResidency s ev d)))
      \<and> getResidency (snd (createResidency s ev d)) (res_id r) = getResidency s (res_id r))
   \<and> (distinct (map addressOwner (residencies s)) \<longrightarrow>
        distinct (map addressOwner (residencies (snd (route s ev req)))))"
proof (intro conjI impI)
  assume a: "r \<in> set (residencies s) \<and> address r = address d \<and> userEmail r = userEmail d
      \<and> ownersRegistered s"
  then have "userEmail d \<in> set (map email (users s))"
    unfolding ownersRegistered_iff by metis
  then obtain u where u: "user_findUnique s (userEmail d) = Some u"
    using user_findUnique_None [of s "userEmail d"]
    by (cases "user_findUnique s (userEmail d)") auto
  from a
  have "list_ex (\<lambda>r. address r = address d \<and> userEmail r = userEmail d) (residencies s)"
    by (auto simp: list_ex_iff)
  with u have "residency_create s ev d = Inl P2002"
    by (simp add: residency_create_def)
  then show c: "createResidency s ev d = (Thrown AddressExists, s)"
    by (simp add: createResidency_def)
  from c show "statusOf (fst (createResidency s ev d)) = 500" by simp
  from c a show "r \<in> set (residencies (snd (createResidency s ev d)))" by simp
  from c show "getResidency (snd (createResidency s ev d)) (res_id r) = getResidency s (res_id r)"
    by simp
next
  assume "distinct (map addressOwner (residencies s))"
  then show "distinct (map addressOwner (residencies (snd (route s ev req))))"
    by (rule route_keeps_addressOwner_distinct)
qed

theorem createResidency_unique_witness:
  "createResidency db0 \<lparr>genId = ''r2'', now = 2000\<rparr> (flat\<lparr>title := ''Other''\<rparr>)
     = (Thrown AddressExists, db0)
   \<and> getResidency (snd (createResidency db0 \<lparr>genId = ''r2'', now = 2000\<rparr> (flat\<lparr>title := ''Other''\<rparr>)))
        ''r1'' = (Sent 200 (OneResidency (newResidency flat ''r1'' 1000)), db0)
   \<and> distinct (map addressOwner
        (residencies (snd (route db0 \<lparr>genId = ''r2'', now = 2000\<rparr> (PostCreate house)))))"
proof -
  let ?ev = "\<lparr>genId = ''r2'', now = 2000\<rparr>"
  let ?d = "flat\<lparr>title := ''Other''\<rparr>"
  note t = createResidency_unique [of "newResidency flat ''r1'' 1000" db0 ?d ?ev "PostCreate house"]
  have h: "newResidency flat ''r1'' 1000 \<in> set (residencies db0)
           \<and> address (newResidency flat ''r1'' 1000) = address ?d
           \<and> userEmail (newResidency flat ''r1'' 1000) = userEmail ?d
           \<and> ownersRegistered db0"
    by (simp add: db0_def newResidency_def alice_def bob_def flat_def ownersRegistered_def)
  have d: "distinct (map addressOwner (residencies db0))"
    by (simp add: db0_def)
  from t h have c: "createResidency db0 ?ev ?d = (Thrown AddressExists, db0)"
    by blast
  from t d have "distinct (map addressOwner (residencies (snd (route db0 ?ev (PostCreate house)))))"
    by blast
  moreover have "getResidency db0 ''r1'' = (Sent 200 (OneResidency (newResidency flat ''r1'' 1000)), db0)"
    by (simp add: getResidency_def residency_findUnique_def db0_def newResidency_def)
  ultimately show ?thesis using c by simp
qed

end
